theory Spec2Isabelle
  imports Main
begin

section \<open>Python values\<close>

text \<open>
  The rule configuration is whatever \<^verbatim>\<open>yaml.safe_load\<close> returns (or whatever the
  caller passes as \<^verbatim>\<open>config\<close>): nested Python values. The constructors cover null,
  booleans, integers, strings, lists and dictionaries with string keys; floats, bytes
  and dates are left out (none of them is truthy-and-a-dict, equal to \<^verbatim>\<open>None\<close> or
  equal to a string, so they would take the branches \<open>PInt\<close> takes). A dictionary is
  an association list in insertion order, which is the order \<^verbatim>\<open>items()\<close> iterates in.
\<close>

datatype pyval =
    PNone
  | PBool bool
  | PInt int
  | PStr string
  | PList "pyval list"
  | PDict "(string \<times> pyval) list"

datatype error =
    FileNotFoundError
  | OSError
  | YAMLError
  | AttributeError
  | TypeError
  | ValidationError

text \<open>Truth value of an object, as \<^verbatim>\<open>or\<close> tests it.\<close>

fun truthy :: "pyval \<Rightarrow> bool" where
  "truthy PNone = False"
| "truthy (PBool b) = b"
| "truthy (PInt i) = (i \<noteq> 0)"
| "truthy (PStr s) = (s \<noteq> [])"
| "truthy (PList xs) = (xs \<noteq> [])"
| "truthy (PDict d) = (d \<noteq> [])"

text \<open>\<^verbatim>\<open>a or b\<close>\<close>

definition py_or :: "pyval \<Rightarrow> pyval \<Rightarrow> pyval" where
  "py_or a b = (if truthy a then a else b)"

text \<open>\<^verbatim>\<open>x.get(key, default)\<close>: only a dictionary has the method.\<close>

fun py_get :: "pyval \<Rightarrow> string \<Rightarrow> pyval \<Rightarrow> error + pyval" where
  "py_get (PDict d) key dflt = Inr (case map_of d key of None \<Rightarrow> dflt | Some v \<Rightarrow> v)"
| "py_get _ key dflt = Inl AttributeError"

text \<open>\<^verbatim>\<open>x.items()\<close>\<close>

fun py_items :: "pyval \<Rightarrow> error + (string \<times> pyval) list" where
  "py_items (PDict d) = Inr d"
| "py_items _ = Inl AttributeError"

text \<open>
  The elements \<^verbatim>\<open>enumerate(x)\<close> runs over: a list gives its elements, a string
  its characters, a dictionary its keys; nothing else is iterable.
\<close>

fun py_iter :: "pyval \<Rightarrow> error + pyval list" where
  "py_iter (PList xs) = Inr xs"
| "py_iter (PStr s) = Inr (map (\<lambda>c. PStr [c]) s)"
| "py_iter (PDict d) = Inr (map (\<lambda>kv. PStr (fst kv)) d)"
| "py_iter _ = Inl TypeError"

section \<open>models.py\<close>

datatype KnowledgeLevel = novice | intermediate | expert

datatype Emotion = positive | neutral | negative

datatype GoalClarity = clear | ambiguous

datatype Urgency = high | normal | low

datatype Stakes = high | medium | low

text \<open>The string each member of a \<^verbatim>\<open>(str, Enum)\<close> class is, and compares equal to.\<close>

fun KnowledgeLevel_value :: "KnowledgeLevel \<Rightarrow> string" where
  "KnowledgeLevel_value novice = ''novice''"
| "KnowledgeLevel_value intermediate = ''intermediate''"
| "KnowledgeLevel_value expert = ''expert''"

fun Emotion_value :: "Emotion \<Rightarrow> string" where
  "Emotion_value positive = ''positive''"
| "Emotion_value neutral = ''neutral''"
| "Emotion_value negative = ''negative''"

fun GoalClarity_value :: "GoalClarity \<Rightarrow> string" where
  "GoalClarity_value clear = ''clear''"
| "GoalClarity_value ambiguous = ''ambiguous''"

fun Urgency_value :: "Urgency \<Rightarrow> string" where
  "Urgency_value Urgency.high = ''high''"
| "Urgency_value Urgency.normal = ''normal''"
| "Urgency_value Urgency.low = ''low''"

fun Stakes_value :: "Stakes \<Rightarrow> string" where
  "Stakes_value Stakes.high = ''high''"
| "Stakes_value Stakes.medium = ''medium''"
| "Stakes_value Stakes.low = ''low''"

record InteractionContext =
  knowledge :: "KnowledgeLevel option"
  emotion :: "Emotion option"
  clarity :: "GoalClarity option"
  urgency :: "Urgency option"
  stakes :: "Stakes option"

record StyleDecision =
  style :: string
  matched_rule_index :: int

text \<open>
  One entry of \<^verbatim>\<open>model_dump(exclude_none=True)\<close>: a field that is \<^verbatim>\<open>None\<close> is left
  out of the dictionary.
\<close>

fun dump_field :: "string \<Rightarrow> ('a \<Rightarrow> string) \<Rightarrow> 'a option \<Rightarrow> (string \<times> string) list" where
  "dump_field name val None = []"
| "dump_field name val (Some v) = [(name, val v)]"

text \<open>\<^verbatim>\<open>context.model_dump(exclude_none=True)\<close>, the fields in declaration order.\<close>

definition model_dump :: "InteractionContext \<Rightarrow> (string \<times> string) list" where
  "model_dump c =
     dump_field ''knowledge'' KnowledgeLevel_value (knowledge c)
   @ dump_field ''emotion'' Emotion_value (emotion c)
   @ dump_field ''clarity'' GoalClarity_value (clarity c)
   @ dump_field ''urgency'' Urgency_value (urgency c)
   @ dump_field ''stakes'' Stakes_value (stakes c)"

text \<open>
  The constructor \<^verbatim>\<open>StyleDecision(style=..., matched_rule_index=...)\<close>: pydantic
  validates \<^verbatim>\<open>style: str\<close> and raises on a value that is not a string.
\<close>

fun new_StyleDecision :: "pyval \<Rightarrow> int \<Rightarrow> error + StyleDecision" where
  "new_StyleDecision (PStr s) idx = Inr \<lparr>style = s, matched_rule_index = idx\<rparr>"
| "new_StyleDecision _ idx = Inl ValidationError"

section \<open>decision.py\<close>

subsection \<open>Loading and caching the configuration\<close>

text \<open>
  What \<^verbatim>\<open>_load_config\<close> finds at the configuration path: no file; a file that
  \<^verbatim>\<open>open\<close> fails on; a file \<^verbatim>\<open>yaml.safe_load\<close> fails on; or a file that parses to
  a value.
\<close>

datatype config_source = Missing | Unreadable | Malformed | Parsed pyval

text \<open>\<^verbatim>\<open>_load_config\<close> (line 15): the parsed value is returned as it is.\<close>

fun load_config :: "config_source \<Rightarrow> error + pyval" where
  "load_config Missing = Inl FileNotFoundError"
| "load_config Unreadable = Inl OSError"
| "load_config Malformed = Inl YAMLError"
| "load_config (Parsed v) = Inr v"

text \<open>
  The state outside the arguments of \<^verbatim>\<open>decide_style\<close>: the file at
  \<^verbatim>\<open>DEFAULT_CONFIG_PATH\<close> and what \<^verbatim>\<open>functools.lru_cache\<close> holds for
  \<^verbatim>\<open>get_config\<close>.
\<close>

record state =
  source :: config_source
  cache :: "pyval option"

text \<open>
  \<^verbatim>\<open>get_config\<close> (line 23): a cached value is returned without reading the file; a
  value that was loaded is stored; an exception is not.
\<close>

definition get_config :: "state \<Rightarrow> (error + pyval) \<times> state" where
  "get_config s =
     (case cache s of
        Some v \<Rightarrow> (Inr v, s)
      | None \<Rightarrow>
          (case load_config (source s) of
             Inl e \<Rightarrow> (Inl e, s)
           | Inr v \<Rightarrow> (Inr v, s\<lparr>cache := Some v\<rparr>)))"

subsection \<open>Matching\<close>

text \<open>
  \<^verbatim>\<open>ctx_dict.get(key) == value\<close> (line 42): the left side is \<^verbatim>\<open>None\<close> for a key the
  dumped context lacks and a string-valued enum member otherwise.
\<close>

fun get_eq :: "string option \<Rightarrow> pyval \<Rightarrow> bool" where
  "get_eq None value = (value = PNone)"
| "get_eq (Some s) value = (value = PStr s)"

text \<open>\<^verbatim>\<open>rule.get("conditions", {}) or {}\<close> and its \<^verbatim>\<open>items()\<close> (lines 40 and 42).\<close>

definition rule_conds :: "pyval \<Rightarrow> error + (string \<times> pyval) list" where
  "rule_conds rule =
     (case py_get rule ''conditions'' (PDict []) of
        Inl e \<Rightarrow> Inl e
      | Inr c \<Rightarrow> py_items (py_or c (PDict [])))"

text \<open>\<^verbatim>\<open>all(ctx_dict.get(key) == value for key, value in conds.items())\<close>\<close>

definition conds_hold :: "(string \<times> string) list \<Rightarrow> (string \<times> pyval) list \<Rightarrow> bool" where
  "conds_hold ctx_dict conds = list_all (\<lambda>(key, value). get_eq (map_of ctx_dict key) value) conds"

text \<open>Lines 40 to 42 for one rule: whether the branch of line 43 is taken.\<close>

definition rule_matches :: "(string \<times> string) list \<Rightarrow> pyval \<Rightarrow> error + bool" where
  "rule_matches ctx_dict rule =
     (case rule_conds rule of
        Inl e \<Rightarrow> Inl e
      | Inr conds \<Rightarrow> Inr (conds_hold ctx_dict conds))"

text \<open>Lines 43 and 44: the decision a matching rule at index \<open>idx\<close> gives.\<close>

definition rule_decision :: "pyval \<Rightarrow> nat \<Rightarrow> error + StyleDecision" where
  "rule_decision rule idx =
     (case py_get rule ''style'' (PStr ''hybrid'') of
        Inl e \<Rightarrow> Inl e
      | Inr st \<Rightarrow> new_StyleDecision st (int idx))"

text \<open>
  The loop of lines 39 to 47 over the rules from index \<open>idx\<close> on, with the fallback
  after it.
\<close>

fun decide_loop :: "(string \<times> string) list \<Rightarrow> nat \<Rightarrow> pyval list \<Rightarrow> error + StyleDecision" where
  "decide_loop ctx_dict idx [] = new_StyleDecision (PStr ''hybrid'') (- 1)"
| "decide_loop ctx_dict idx (rule # rest) =
     (case rule_matches ctx_dict rule of
        Inl e \<Rightarrow> Inl e
      | Inr True \<Rightarrow> rule_decision rule idx
      | Inr False \<Rightarrow> decide_loop ctx_dict (Suc idx) rest)"

text \<open>
  \<^verbatim>\<open>decide_style\<close> (line 29). \<^verbatim>\<open>config or get_config()\<close> calls \<^verbatim>\<open>get_config\<close> when
  \<^verbatim>\<open>config\<close> is \<^verbatim>\<open>None\<close> or an empty dictionary.
\<close>

definition decide_style ::
  "state \<Rightarrow> InteractionContext \<Rightarrow> pyval \<Rightarrow> (error + StyleDecision) \<times> state" where
  "decide_style s context config =
     (case (if truthy config then (Inr config, s) else get_config s) of
        (Inl e, s') \<Rightarrow> (Inl e, s')
      | (Inr cfg, s') \<Rightarrow>
          (case py_get cfg ''strategies'' (PList []) of
             Inl e \<Rightarrow> (Inl e, s')
           | Inr rules \<Rightarrow>
               (case py_iter rules of
                  Inl e \<Rightarrow> (Inl e, s')
                | Inr rs \<Rightarrow> (decide_loop (model_dump context) 0 rs, s'))))"

section \<open>decision.py on a store of objects\<close>

type_synonym addr = nat

text \<open>
  The store. Python passes objects by reference, so a call can change what its caller
  holds. To state what \<^verbatim>\<open>decide_style\<close> leaves alone, the objects that can be changed in
  place (lists, dictionaries and \<^verbatim>\<open>InteractionContext\<close> instances) live in a store, a list of
  objects whose index is the object's address. A value is null, a boolean, an integer, a string
  (an enum member counts as its string), a tuple, or a reference into the store.
\<close>

datatype hval = VNone | VBool bool | VInt int | VStr string | VTuple "hval list" | VRef addr

datatype hobj = HList "hval list" | HDict "(string \<times> hval) list" | HContext InteractionContext

type_synonym heap = "hobj list"

text \<open>
  Reading an address. An address outside the store does not occur in Python; the operations
  below treat it as an object with no methods.
\<close>

definition deref :: "heap \<Rightarrow> addr \<Rightarrow> hobj option" where
  "deref h a = (if a < length h then Some (h ! a) else None)"

text \<open>
  Creating an object: it gets the next address, and nothing that was in the store moves or
  changes.
\<close>

definition alloc :: "hobj \<Rightarrow> heap \<Rightarrow> hval \<times> heap" where
  "alloc ob h = (VRef (length h), h @ [ob])"

text \<open>
  Truth value: an empty list or dictionary is false, an \<^verbatim>\<open>InteractionContext\<close> instance is
  true.
\<close>

fun h_truthy :: "heap \<Rightarrow> hval \<Rightarrow> bool" where
  "h_truthy h VNone = False"
| "h_truthy h (VBool b) = b"
| "h_truthy h (VInt i) = (i \<noteq> 0)"
| "h_truthy h (VStr s) = (s \<noteq> [])"
| "h_truthy h (VTuple xs) = (xs \<noteq> [])"
| "h_truthy h (VRef a) =
     (case deref h a of
        Some (HList xs) \<Rightarrow> xs \<noteq> []
      | Some (HDict d) \<Rightarrow> d \<noteq> []
      | _ \<Rightarrow> True)"

text \<open>
  The dictionary an object is, for \<^verbatim>\<open>get\<close> and \<^verbatim>\<open>items()\<close>; an object of any other kind has
  neither method.
\<close>

fun h_dict :: "heap \<Rightarrow> hval \<Rightarrow> error + (string \<times> hval) list" where
  "h_dict h (VRef a) = (case deref h a of Some (HDict d) \<Rightarrow> Inr d | _ \<Rightarrow> Inl AttributeError)"
| "h_dict h _ = Inl AttributeError"

text \<open>
  \<^verbatim>\<open>d.get(key, default)\<close> on the entries of a dictionary.
\<close>

definition lookup :: "(string \<times> hval) list \<Rightarrow> string \<Rightarrow> hval \<Rightarrow> hval" where
  "lookup d key dflt = (case map_of d key of None \<Rightarrow> dflt | Some v \<Rightarrow> v)"

fun opt_val :: "('a \<Rightarrow> string) \<Rightarrow> 'a option \<Rightarrow> hval" where
  "opt_val val None = VNone"
| "opt_val val (Some v) = VStr (val v)"

text \<open>
  The (name, value) pairs that iterating over a pydantic model yields: all five fields,
  the unset ones with \<^verbatim>\<open>None\<close>.
\<close>

definition context_fields :: "InteractionContext \<Rightarrow> (string \<times> hval) list" where
  "context_fields c =
     [(''knowledge'', opt_val KnowledgeLevel_value (knowledge c)),
      (''emotion'', opt_val Emotion_value (emotion c)),
      (''clarity'', opt_val GoalClarity_value (clarity c)),
      (''urgency'', opt_val Urgency_value (urgency c)),
      (''stakes'', opt_val Stakes_value (stakes c))]"

text \<open>
  The elements \<^verbatim>\<open>enumerate(x)\<close> runs over. Iterating over a model instance gives its
  (name, value) tuples.
\<close>

fun h_iter :: "heap \<Rightarrow> hval \<Rightarrow> error + hval list" where
  "h_iter h (VStr s) = Inr (map (\<lambda>c. VStr [c]) s)"
| "h_iter h (VTuple xs) = Inr xs"
| "h_iter h (VRef a) =
     (case deref h a of
        Some (HList xs) \<Rightarrow> Inr xs
      | Some (HDict d) \<Rightarrow> Inr (map (\<lambda>kv. VStr (fst kv)) d)
      | Some (HContext c) \<Rightarrow> Inr (map (\<lambda>kv. VTuple [VStr (fst kv), snd kv]) (context_fields c))
      | None \<Rightarrow> Inl TypeError)"
| "h_iter h _ = Inl TypeError"

text \<open>
  The entries of the dictionary \<^verbatim>\<open>model_dump(exclude_none=True)\<close> creates: attribute names
  to enum members.
\<close>

definition dumped :: "(string \<times> string) list \<Rightarrow> (string \<times> hval) list" where
  "dumped md = map (\<lambda>kv. (fst kv, VStr (snd kv))) md"

text \<open>
  \<^verbatim>\<open>context.model_dump(exclude_none=True)\<close> (line 37): only a model instance has the
  method.
\<close>

fun h_model_dump :: "heap \<Rightarrow> hval \<Rightarrow> error + (string \<times> hval) list" where
  "h_model_dump h (VRef a) =
     (case deref h a of
        Some (HContext c) \<Rightarrow> Inr (dumped (model_dump c))
      | _ \<Rightarrow> Inl AttributeError)"
| "h_model_dump h _ = Inl AttributeError"

text \<open>
  The constructor \<^verbatim>\<open>StyleDecision(...)\<close> on a stored value. The Decision is the value the call
  returns; it is created by the call and is no object of the store before it.
\<close>

fun h_new_StyleDecision :: "hval \<Rightarrow> int \<Rightarrow> error + StyleDecision" where
  "h_new_StyleDecision (VStr s) idx = Inr \<lparr>style = s, matched_rule_index = idx\<rparr>"
| "h_new_StyleDecision _ idx = Inl ValidationError"

text \<open>
  What \<^verbatim>\<open>yaml.safe_load\<close> does with the store: it builds a fresh object for every list and
  dictionary of the parsed document.
\<close>

fun store :: "pyval \<Rightarrow> heap \<Rightarrow> hval \<times> heap"
  and store_list :: "pyval list \<Rightarrow> heap \<Rightarrow> hval list \<times> heap"
  and store_items :: "(string \<times> pyval) list \<Rightarrow> heap \<Rightarrow> (string \<times> hval) list \<times> heap" where
  "store PNone h = (VNone, h)"
| "store (PBool b) h = (VBool b, h)"
| "store (PInt i) h = (VInt i, h)"
| "store (PStr s) h = (VStr s, h)"
| "store (PList xs) h = (case store_list xs h of (vs, h') \<Rightarrow> alloc (HList vs) h')"
| "store (PDict d) h = (case store_items d h of (kvs, h') \<Rightarrow> alloc (HDict kvs) h')"
| "store_list [] h = ([], h)"
| "store_list (x # xs) h =
     (case store x h of (v, h1) \<Rightarrow>
        (case store_list xs h1 of (vs, h2) \<Rightarrow> (v # vs, h2)))"
| "store_items [] h = ([], h)"
| "store_items (kx # kxs) h =
     (case store (snd kx) h of (v, h1) \<Rightarrow>
        (case store_items kxs h1 of (kvs, h2) \<Rightarrow> ((fst kx, v) # kvs, h2)))"

text \<open>
  The state outside the arguments, with the cache holding a reference to the configuration
  object that was loaded.
\<close>

record hstate =
  hsource :: config_source
  hcache :: "hval option"

text \<open>
  \<^verbatim>\<open>get_config\<close> (line 23) on the store: a first successful call creates the
  configuration objects and keeps the reference.
\<close>

definition h_get_config :: "heap \<Rightarrow> hstate \<Rightarrow> (error + hval) \<times> heap \<times> hstate" where
  "h_get_config h s =
     (case hcache s of
        Some v \<Rightarrow> (Inr v, h, s)
      | None \<Rightarrow>
          (case load_config (hsource s) of
             Inl e \<Rightarrow> (Inl e, h, s)
           | Inr pv \<Rightarrow> (case store pv h of (v, h') \<Rightarrow> (Inr v, h', s\<lparr>hcache := Some v\<rparr>))))"

text \<open>
  Line 42 on the store. \<^verbatim>\<open>ctx_dict\<close> maps attribute names to enum members, so the lookup
  gives \<^verbatim>\<open>None\<close> or a string.
\<close>

definition h_conds_hold :: "heap \<Rightarrow> hval \<Rightarrow> (string \<times> hval) list \<Rightarrow> bool" where
  "h_conds_hold h ctx_dict conds =
     list_all (\<lambda>(key, value).
        case h_dict h ctx_dict of
          Inl e \<Rightarrow> False
        | Inr d \<Rightarrow> (case lookup d key VNone of
                     VNone \<Rightarrow> value = VNone
                   | VStr s \<Rightarrow> value = VStr s
                   | _ \<Rightarrow> False)) conds"

text \<open>
  The loop of lines 39 to 47 on the store. \<^verbatim>\<open>rule.get("conditions", {})\<close> evaluates its
  default \<^verbatim>\<open>{}\<close>, a new dictionary, on every iteration, and \<^verbatim>\<open>or {}\<close> creates another one when
  the entry is false.
\<close>

fun h_decide_loop ::
  "heap \<Rightarrow> hval \<Rightarrow> nat \<Rightarrow> hval list \<Rightarrow> (error + StyleDecision) \<times> heap" where
  "h_decide_loop h ctx_dict idx [] = (h_new_StyleDecision (VStr ''hybrid'') (- 1), h)"
| "h_decide_loop h ctx_dict idx (rule # rest) =
     (case h_dict h rule of
        Inl e \<Rightarrow> (Inl e, h)
      | Inr r \<Rightarrow>
          (case alloc (HDict []) h of (dflt, h1) \<Rightarrow>
             (case (if h_truthy h1 (lookup r ''conditions'' dflt)
                    then (lookup r ''conditions'' dflt, h1)
                    else alloc (HDict []) h1) of (conds, h2) \<Rightarrow>
                (case h_dict h2 conds of
                   Inl e \<Rightarrow> (Inl e, h2)
                 | Inr cs \<Rightarrow>
                     if h_conds_hold h2 ctx_dict cs
                     then (case h_dict h2 rule of
                             Inl e \<Rightarrow> (Inl e, h2)
                           | Inr r' \<Rightarrow>
                               (h_new_StyleDecision (lookup r' ''style'' (VStr ''hybrid'')) (int idx), h2))
                     else h_decide_loop h2 ctx_dict (Suc idx) rest))))"

text \<open>
  \<^verbatim>\<open>decide_style\<close> (line 29) on the store: the default \<^verbatim>\<open>[]\<close> of line 35 and the dumped context
  of line 37 are new objects; the context and the configuration are reached through their
  references.
\<close>

definition h_decide_style ::
  "heap \<Rightarrow> hstate \<Rightarrow> hval \<Rightarrow> hval \<Rightarrow> (error + StyleDecision) \<times> heap \<times> hstate" where
  "h_decide_style h s context config =
     (case (if h_truthy h config then (Inr config, h, s) else h_get_config h s) of
        (Inl e, h1, s1) \<Rightarrow> (Inl e, h1, s1)
      | (Inr cfg, h1, s1) \<Rightarrow>
          (case h_dict h1 cfg of
             Inl e \<Rightarrow> (Inl e, h1, s1)
           | Inr d \<Rightarrow>
               (case alloc (HList []) h1 of (dflt, h2) \<Rightarrow>
                  (case h_model_dump h2 context of
                     Inl e \<Rightarrow> (Inl e, h2, s1)
                   | Inr dump \<Rightarrow>
                       (case alloc (HDict dump) h2 of (ctx_dict, h3) \<Rightarrow>
                          (case h_iter h3 (lookup d ''strategies'' dflt) of
                             Inl e \<Rightarrow> (Inl e, h3, s1)
                           | Inr rs \<Rightarrow>
                               (case h_decide_loop h3 ctx_dict 0 rs of
                                  (r, h4) \<Rightarrow> (r, h4, s1))))))))"

text \<open>
  A stored value represents a nested Python value when following its references through
  the store reads that value.
\<close>

fun repr :: "heap \<Rightarrow> hval \<Rightarrow> pyval \<Rightarrow> bool"
  and repr_list :: "heap \<Rightarrow> hval list \<Rightarrow> pyval list \<Rightarrow> bool"
  and repr_items :: "heap \<Rightarrow> (string \<times> hval) list \<Rightarrow> (string \<times> pyval) list \<Rightarrow> bool" where
  "repr h v PNone = (v = VNone)"
| "repr h v (PBool b) = (v = VBool b)"
| "repr h v (PInt i) = (v = VInt i)"
| "repr h v (PStr s) = (v = VStr s)"
| "repr h v (PList xs) =
     (case v of
        VRef a \<Rightarrow> (case deref h a of Some (HList vs) \<Rightarrow> repr_list h vs xs | _ \<Rightarrow> False)
      | _ \<Rightarrow> False)"
| "repr h v (PDict d) =
     (case v of
        VRef a \<Rightarrow> (case deref h a of Some (HDict kvs) \<Rightarrow> repr_items h kvs d | _ \<Rightarrow> False)
      | _ \<Rightarrow> False)"
| "repr_list h vs [] = (vs = [])"
| "repr_list h vs (x # xs) =
     (case vs of [] \<Rightarrow> False | v # vs' \<Rightarrow> repr h v x \<and> repr_list h vs' xs)"
| "repr_items h kvs [] = (kvs = [])"
| "repr_items h kvs (kx # kxs) =
     (case kvs of
        [] \<Rightarrow> False
      | kv # kvs' \<Rightarrow> fst kv = fst kx \<and> repr h (snd kv) (snd kx) \<and> repr_items h kvs' kxs)"

section \<open>The specification's vocabulary\<close>

text \<open>
  The context's value for a named attribute, read from the fields of the record: the value
  of the enumeration when the attribute is set, nothing when it is not, and nothing for a
  name that is not one of the five attributes.
\<close>

definition ctx_value :: "InteractionContext \<Rightarrow> string \<Rightarrow> string option" where
  "ctx_value c attr =
     (if attr = ''knowledge'' then map_option KnowledgeLevel_value (knowledge c)
      else if attr = ''emotion'' then map_option Emotion_value (emotion c)
      else if attr = ''clarity'' then map_option GoalClarity_value (clarity c)
      else if attr = ''urgency'' then map_option Urgency_value (urgency c)
      else if attr = ''stakes'' then map_option Stakes_value (stakes c)
      else None)"

text \<open>
  The match condition in the specification's words: for every (attribute, required value)
  pair of the constraint mapping, the context's value for the attribute is set and equals
  the required value.
\<close>

definition spec_match :: "InteractionContext \<Rightarrow> (string \<times> pyval) list \<Rightarrow> bool" where
  "spec_match c conds =
     list_all (\<lambda>(attr, required).
        case ctx_value c attr of None \<Rightarrow> False | Some v \<Rightarrow> required = PStr v) conds"

fun is_str :: "pyval \<Rightarrow> bool" where
  "is_str (PStr s) = True"
| "is_str _ = False"

fun is_dict :: "pyval \<Rightarrow> bool" where
  "is_dict (PDict d) = True"
| "is_dict _ = False"

text \<open>
  A rule record as the annotations of \<^verbatim>\<open>decide_style\<close> and \<^verbatim>\<open>StyleDecision\<close> describe it:
  a dictionary whose \<^verbatim>\<open>conditions\<close> entry, when there is one, is a dictionary or a false
  value such as null, and whose \<^verbatim>\<open>style\<close> entry, when there is one, is a string.
\<close>

fun wf_rule :: "pyval \<Rightarrow> bool" where
  "wf_rule (PDict d) =
     ((case map_of d ''conditions'' of None \<Rightarrow> True | Some c \<Rightarrow> \<not> truthy c \<or> is_dict c)
      \<and> (case map_of d ''style'' of None \<Rightarrow> True | Some v \<Rightarrow> is_str v))"
| "wf_rule _ = False"

section \<open>Concrete inputs\<close>

definition empty_context :: InteractionContext where
  "empty_context = \<lparr>knowledge = None, emotion = None, clarity = None, urgency = None, stakes = None\<rparr>"

definition unloaded :: state where
  "unloaded = \<lparr>source = Missing, cache = None\<rparr>"

definition three_wildcards :: "pyval list" where
  "three_wildcards =
     [PDict [(''conditions'', PDict []), (''style'', PStr ''first'')],
      PDict [(''conditions'', PDict []), (''style'', PStr ''second'')],
      PDict [(''conditions'', PDict []), (''style'', PStr ''third'')]]"

definition null_knowledge_rule :: pyval where
  "null_knowledge_rule =
     PDict [(''conditions'', PDict [(''knowledge'', PNone)]), (''style'', PStr ''concise'')]"

definition novice_rule :: pyval where
  "novice_rule =
     PDict [(''conditions'', PDict [(''knowledge'', PStr ''novice'')]), (''style'', PStr ''explanatory'')]"

definition styleless_config :: pyval where
  "styleless_config = PDict [(''strategies'', PList [PDict [(''conditions'', PDict [])]])]"

definition novice_context :: InteractionContext where
  "novice_context =
     \<lparr>knowledge = Some novice, emotion = None, clarity = None, urgency = None, stakes = None\<rparr>"

definition novice_heap :: heap where
  "novice_heap =
     [HContext novice_context,
      HDict [(''knowledge'', VStr ''novice'')],
      HDict [(''conditions'', VRef 1), (''style'', VStr ''explanatory'')],
      HList [VRef 2],
      HDict [(''strategies'', VRef 3)]]"

definition novice_config :: pyval where
  "novice_config =
     PDict [(''strategies'', PList [PDict [(''conditions'', PDict [(''knowledge'', PStr ''novice'')]),
                                         (''style'', PStr ''explanatory'')]])]"

definition h_unloaded :: hstate where
  "h_unloaded = \<lparr>hsource = Missing, hcache = None\<rparr>"

section \<open>Properties of the loop\<close>

lemma dump_field_get:
  "map_of (dump_field name val x) k = (if k = name then map_option val x else None)"
  by (cases x) auto

lemma model_dump_get: "map_of (model_dump c) attr = ctx_value c attr"
  by (simp add: model_dump_def ctx_value_def map_add_def dump_field_get split: option.splits)

lemma decide_loop_no_match:
  "\<forall>r \<in> set rs. rule_matches cd r = Inr False \<Longrightarrow>
   decide_loop cd n rs = Inr \<lparr>style = ''hybrid'', matched_rule_index = - 1\<rparr>"
  by (induction rs arbitrary: n) simp_all

lemma decide_loop_first_match:
  "i < length rs \<Longrightarrow> \<forall>k<i. rule_matches cd (rs ! k) = Inr False \<Longrightarrow>
   rule_matches cd (rs ! i) = Inr True \<Longrightarrow>
   decide_loop cd n rs = rule_decision (rs ! i) (n + i)"
proof (induction rs arbitrary: n i)
  case Nil
  then show ?case by simp
next
  case (Cons r rs)
  show ?case
  proof (cases i)
    case 0
    with Cons.prems show ?thesis by simp
  next
    case (Suc m)
    from Cons.prems(2) Suc have r: "rule_matches cd r = Inr False" by auto
    from Cons.prems(2) Suc have "\<forall>k<m. rule_matches cd (rs ! k) = Inr False" by auto
    with Cons.IH [of m "Suc n"] Cons.prems Suc r show ?thesis by simp
  qed
qed

lemma decide_style_supplied:
  "map_of d ''strategies'' = Some (PList rules) \<Longrightarrow>
   decide_style s c (PDict d) = (decide_loop (model_dump c) 0 rules, s)"
  by (auto simp: decide_style_def)

lemma new_StyleDecision_Inr:
  "new_StyleDecision v i = Inr dec \<Longrightarrow> matched_rule_index dec = i \<and> v = PStr (style dec)"
  by (cases v) auto

lemma rule_decision_index:
  "rule_decision r n = Inr dec \<Longrightarrow> matched_rule_index dec = int n"
  by (auto simp: rule_decision_def split: sum.splits dest: new_StyleDecision_Inr)

lemma decide_loop_index:
  "decide_loop cd n rs = Inr dec \<Longrightarrow>
   matched_rule_index dec = - 1 \<and> (\<forall>r \<in> set rs. rule_matches cd r = Inr False)
   \<or> int n \<le> matched_rule_index dec \<and> matched_rule_index dec < int n + int (length rs)"
proof (induction rs arbitrary: n)
  case Nil
  then show ?case by auto
next
  case (Cons r rs)
  show ?case
  proof (cases "rule_matches cd r")
    case (Inl e)
    with Cons.prems show ?thesis by simp
  next
    case (Inr b)
    show ?thesis
    proof (cases b)
      case True
      with Inr Cons.prems have "rule_decision r n = Inr dec" by simp
      then show ?thesis by (simp add: rule_decision_index)
    next
      case False
      with Inr Cons.prems have "decide_loop cd (Suc n) rs = Inr dec" by simp
      from Cons.IH [OF this] Inr False show ?thesis by auto
    qed
  qed
qed

lemma wf_rule_conds: "wf_rule r \<Longrightarrow> \<exists>conds. rule_conds r = Inr conds"
proof (cases r)
  case (PDict d)
  assume "wf_rule r"
  with PDict show ?thesis
    by (cases "map_of d ''conditions''"; cases "the (map_of d ''conditions'')")
       (auto simp: rule_conds_def py_or_def)
qed simp_all

lemma wf_rule_matches: "wf_rule r \<Longrightarrow> \<exists>b. rule_matches cd r = Inr b"
  using wf_rule_conds [of r] by (auto simp: rule_matches_def)

lemma wf_rule_decision: "wf_rule r \<Longrightarrow> \<exists>dec. rule_decision r n = Inr dec"
proof (cases r)
  case (PDict d)
  assume "wf_rule r"
  with PDict show ?thesis
    by (cases "map_of d ''style''"; cases "the (map_of d ''style'')")
       (auto simp: rule_decision_def)
qed simp_all

lemma wf_decide_loop:
  "list_all wf_rule rs \<Longrightarrow> \<exists>dec. decide_loop cd n rs = Inr dec"
proof (induction rs arbitrary: n)
  case Nil
  show ?case by simp
next
  case (Cons r rs)
  then have wf: "wf_rule r" and rest: "list_all wf_rule rs" by simp_all
  from wf_rule_matches [OF wf] obtain b where b: "rule_matches cd r = Inr b" by blast
  show ?case
  proof (cases b)
    case True
    with b wf_rule_decision [OF wf, of n] show ?thesis by simp
  next
    case False
    with b Cons.IH [OF rest, of "Suc n"] show ?thesis by simp
  qed
qed

lemma decide_loop_replace:
  "rule_matches cd r = rule_matches cd r' \<Longrightarrow> rule_decision r = rule_decision r' \<Longrightarrow>
   decide_loop cd n (pre @ r # post) = decide_loop cd n (pre @ r' # post)"
  by (induction pre arbitrary: n) (simp_all split: sum.splits bool.splits)

lemma decide_loop_match_not_fallback:
  assumes "r \<in> set rs" and "rule_matches cd r = Inr True" and "decide_loop cd n rs = Inr dec"
  shows "int n \<le> matched_rule_index dec"
  using decide_loop_index [OF assms(3)] assms(1,2) by auto

lemma get_config_again:
  "get_config (snd (get_config s)) = (fst (get_config s), snd (get_config s))"
  by (auto simp: get_config_def split: option.splits sum.splits)

lemma decide_style_again:
  "fst (decide_style (snd (decide_style s c config)) c config) = fst (decide_style s c config)"
proof (cases "truthy config")
  case True
  then show ?thesis by (simp add: decide_style_def split: sum.splits)
next
  case False
  obtain r s' where g: "get_config s = (r, s')" by (cases "get_config s")
  with get_config_again [of s] have g': "get_config s' = (r, s')" by simp
  from False g have "snd (decide_style s c config) = s'"
    by (simp add: decide_style_def split: sum.splits)
  with False g g' show ?thesis by (simp add: decide_style_def)
qed

section \<open>Properties of the store model\<close>

lemma deref_append: "a < length h \<Longrightarrow> deref (h @ new) a = deref h a"
  by (simp add: deref_def nth_append)

lemma deref_append_Some: "deref h a = Some ob \<Longrightarrow> deref (h @ new) a = Some ob"
  by (auto simp: deref_def nth_append split: if_splits)

lemma deref_alloc: "deref (h @ [ob]) (length h) = Some ob"
  by (simp add: deref_def)

lemma store_extends:
  "\<exists>new. snd (store pv h) = h @ new"
  "\<exists>new. snd (store_list xs h) = h @ new"
  "\<exists>new. snd (store_items d h) = h @ new"
proof (induction pv h and xs h and d h rule: store_store_list_store_items.induct)
  case (5 xs h)
  then show ?case by (auto simp: alloc_def split: prod.splits)
next
  case (6 d h)
  then show ?case by (auto simp: alloc_def split: prod.splits)
next
  case (8 x xs h)
  obtain v h1 where 1: "store x h = (v, h1)" by (cases "store x h")
  obtain vs h2 where 2: "store_list xs h1 = (vs, h2)" by (cases "store_list xs h1")
  from 8(1) 1 obtain n1 where "h1 = h @ n1" by auto
  moreover from 8(2) [OF 1 [symmetric]] 2 obtain n2 where "h2 = h1 @ n2" by auto
  ultimately show ?case using 1 2 by simp
next
  case (10 kx kxs h)
  obtain v h1 where 1: "store (snd kx) h = (v, h1)" by (cases "store (snd kx) h")
  obtain kvs h2 where 2: "store_items kxs h1 = (kvs, h2)" by (cases "store_items kxs h1")
  from 10(1) 1 obtain n1 where "h1 = h @ n1" by auto
  moreover from 10(2) [OF 1 [symmetric]] 2 obtain n2 where "h2 = h1 @ n2" by auto
  ultimately show ?case using 1 2 by simp
qed simp_all

lemma h_decide_loop_extends: "\<exists>new. snd (h_decide_loop h cd n rs) = h @ new"
proof (induction rs arbitrary: h n)
  case Nil
  show ?case by simp
next
  case (Cons rule rest)
  show ?case
  proof (cases "h_dict h rule")
    case (Inl e)
    then show ?thesis by simp
  next
    case (Inr r)
    define h1 where "h1 = h @ [HDict []]"
    define c where "c = lookup r ''conditions'' (VRef (length h))"
    define h2 where "h2 = (if h_truthy h1 c then h1 else h1 @ [HDict []])"
    define conds where "conds = (if h_truthy h1 c then c else VRef (length h1))"
    have h2: "\<exists>new. h2 = h @ new" by (simp add: h2_def h1_def)
    from Cons.IH [of h2 "Suc n"] h2 obtain new where
      rec: "snd (h_decide_loop h2 cd (Suc n) rest) = h @ new" by auto
    have "snd (h_decide_loop h cd n (rule # rest)) = h2
        \<or> snd (h_decide_loop h cd n (rule # rest)) = snd (h_decide_loop h2 cd (Suc n) rest)"
      using Inr by (simp add: alloc_def h1_def [symmetric] c_def [symmetric] h2_def
          split: sum.splits)
    with h2 rec show ?thesis by auto
  qed
qed

lemma h_get_config_extends: "\<exists>new. fst (snd (h_get_config h s)) = h @ new"
  using store_extends(1)
  by (auto simp: h_get_config_def split: option.splits sum.splits prod.splits)
     (metis snd_conv)

lemma h_decide_style_extends: "\<exists>new. fst (snd (h_decide_style h s context config)) = h @ new"
proof -
  obtain r0 h1 s1 where 0:
    "(if h_truthy h config then (Inr config, h, s) else h_get_config h s) = (r0, h1, s1)"
    by (metis prod_cases3)
  have h1: "\<exists>new. h1 = h @ new"
    using 0 h_get_config_extends [of h s] by (auto split: if_splits)
  show ?thesis
  proof (cases r0)
    case (Inl e)
    with 0 h1 show ?thesis by (simp add: h_decide_style_def)
  next
    case (Inr cfg)
    show ?thesis
    proof (cases "h_dict h1 cfg")
      case (Inl e)
      with 0 Inr h1 show ?thesis by (simp add: h_decide_style_def)
    next
      case d: (Inr d)
      define h2 where "h2 = h1 @ [HList []]"
      show ?thesis
      proof (cases "h_model_dump h2 context")
        case (Inl e)
        with 0 Inr d h1 show ?thesis by (auto simp: h_decide_style_def alloc_def h2_def)
      next
        case dump: (Inr dump)
        define h3 where "h3 = h2 @ [HDict dump]"
        have h3: "\<exists>new. h3 = h @ new" using h1 by (auto simp: h3_def h2_def)
        show ?thesis
        proof (cases "h_iter h3 (lookup d ''strategies'' (VRef (length h1)))")
          case (Inl e)
          with 0 Inr d dump h3 show ?thesis
            by (simp add: h_decide_style_def alloc_def h2_def [symmetric] h3_def [symmetric])
        next
          case rs: (Inr rs)
          from h_decide_loop_extends [of h3 "VRef (length h2)" 0 rs] h3
          have "\<exists>new. snd (h_decide_loop h3 (VRef (length h2)) 0 rs) = h @ new" by auto
          with 0 Inr d dump rs show ?thesis
            by (auto simp: h_decide_style_def alloc_def h2_def [symmetric] h3_def [symmetric]
                split: prod.splits)
        qed
      qed
    qed
  qed
qed

lemma repr_extend:
  "repr h v pv \<Longrightarrow> repr (h @ new) v pv"
  "repr_list h vs xs \<Longrightarrow> repr_list (h @ new) vs xs"
  "repr_items h kvs d \<Longrightarrow> repr_items (h @ new) kvs d"
proof (induction h v pv and h vs xs and h kvs d rule: repr_repr_list_repr_items.induct)
  case (5 h v xs)
  from 5(2) obtain a vs where v: "v = VRef a" and a: "deref h a = Some (HList vs)"
    and vs: "repr_list h vs xs"
    by (auto split: hval.splits option.splits hobj.splits)
  from 5(1) [OF v a refl vs] deref_append_Some [OF a, of new] v show ?case by simp
next
  case (6 h v d)
  from 6(2) obtain a kvs where v: "v = VRef a" and a: "deref h a = Some (HDict kvs)"
    and kvs: "repr_items h kvs d"
    by (auto split: hval.splits option.splits hobj.splits)
  from 6(1) [OF v a refl kvs] deref_append_Some [OF a, of new] v show ?case by simp
next
  case (8 h vs x xs)
  then show ?case by (auto split: list.splits)
next
  case (10 h kvs kx kxs)
  then show ?case by (auto split: list.splits)
qed simp_all

lemma store_repr:
  "repr (snd (store pv h)) (fst (store pv h)) pv"
  "repr_list (snd (store_list xs h)) (fst (store_list xs h)) xs"
  "repr_items (snd (store_items d h)) (fst (store_items d h)) d"
proof (induction pv h and xs h and d h rule: store_store_list_store_items.induct)
  case (5 xs h)
  obtain vs h' where 1: "store_list xs h = (vs, h')" by (cases "store_list xs h")
  with 5 have "repr_list h' vs xs" by simp
  then have "repr_list (h' @ [HList vs]) vs xs" by (rule repr_extend)
  with 1 show ?case by (simp add: alloc_def deref_alloc)
next
  case (6 d h)
  obtain kvs h' where 1: "store_items d h = (kvs, h')" by (cases "store_items d h")
  with 6 have "repr_items h' kvs d" by simp
  then have "repr_items (h' @ [HDict kvs]) kvs d" by (rule repr_extend)
  with 1 show ?case by (simp add: alloc_def deref_alloc)
next
  case (8 x xs h)
  obtain v h1 where 1: "store x h = (v, h1)" by (cases "store x h")
  obtain vs h2 where 2: "store_list xs h1 = (vs, h2)" by (cases "store_list xs h1")
  from store_extends(2) [of xs h1] 2 obtain n where n: "h2 = h1 @ n" by auto
  from 8(1) 1 have "repr h1 v x" by simp
  then have "repr h2 v x" unfolding n by (rule repr_extend)
  moreover from 8(2) [OF 1 [symmetric]] 2 have "repr_list h2 vs xs" by simp
  ultimately show ?case using 1 2 by simp
next
  case (10 kx kxs h)
  obtain v h1 where 1: "store (snd kx) h = (v, h1)" by (cases "store (snd kx) h")
  obtain kvs h2 where 2: "store_items kxs h1 = (kvs, h2)" by (cases "store_items kxs h1")
  from store_extends(3) [of kxs h1] 2 obtain n where n: "h2 = h1 @ n" by auto
  from 10(1) 1 have "repr h1 v (snd kx)" by simp
  then have "repr h2 v (snd kx)" unfolding n by (rule repr_extend)
  moreover from 10(2) [OF 1 [symmetric]] 2 have "repr_items h2 kvs kxs" by simp
  ultimately show ?case using 1 2 by simp
qed simp_all

lemma repr_list_Nil: "repr_list h vs xs \<Longrightarrow> (vs = []) = (xs = [])"
  by (cases xs) (auto split: list.splits)

lemma repr_items_Nil: "repr_items h kvs d \<Longrightarrow> (kvs = []) = (d = [])"
  by (cases d) (auto split: list.splits)

lemma repr_truthy: "repr h v pv \<Longrightarrow> h_truthy h v = truthy pv"
  by (cases pv)
     (auto split: hval.splits option.splits hobj.splits dest: repr_list_Nil repr_items_Nil)

lemma repr_dict:
  "repr h v (PDict d) \<Longrightarrow> \<exists>kvs. h_dict h v = Inr kvs \<and> repr_items h kvs d"
  by (auto split: hval.splits option.splits hobj.splits)

lemma repr_not_dict:
  "repr h v pv \<Longrightarrow> \<forall>d. pv \<noteq> PDict d \<Longrightarrow> h_dict h v = Inl AttributeError"
  by (cases pv) (auto split: hval.splits option.splits hobj.splits)

lemma repr_items_lookup:
  "repr_items h kvs d \<Longrightarrow> repr h dv dpv \<Longrightarrow>
   repr h (lookup kvs k dv) (case map_of d k of None \<Rightarrow> dpv | Some x \<Rightarrow> x)"
proof (induction d arbitrary: kvs)
  case Nil
  then show ?case by (simp add: lookup_def)
next
  case (Cons kx kxs)
  then obtain kv kvs' where kvs: "kvs = kv # kvs'" and k: "fst kv = fst kx"
    and v: "repr h (snd kv) (snd kx)" and rest: "repr_items h kvs' kxs"
    by (auto split: list.splits)
  from Cons.IH [OF rest Cons.prems(2)] kvs k v show ?case
    by (cases kv; cases kx) (auto simp: lookup_def)
qed

lemma repr_chars: "repr_list h (map (\<lambda>c. VStr [c]) s) (map (\<lambda>c. PStr [c]) s)"
  by (induction s) simp_all

lemma repr_keys:
  "repr_items h kvs d \<Longrightarrow>
   repr_list h (map (\<lambda>kv. VStr (fst kv)) kvs) (map (\<lambda>kv. PStr (fst kv)) d)"
  by (induction d arbitrary: kvs) (auto split: list.splits)

lemma repr_iter:
  "repr h v pv \<Longrightarrow>
   (case py_iter pv of
      Inl e \<Rightarrow> h_iter h v = Inl e
    | Inr xs \<Rightarrow> (\<exists>vs. h_iter h v = Inr vs \<and> repr_list h vs xs))"
  by (cases pv)
     (auto simp: repr_chars split: hval.splits option.splits hobj.splits dest: repr_keys)

lemma repr_new_StyleDecision:
  "repr h v pv \<Longrightarrow> h_new_StyleDecision v i = new_StyleDecision pv i"
  by (cases pv) (auto split: hval.splits option.splits hobj.splits)

lemma repr_scalar:
  "repr h v pv \<Longrightarrow> (v = VNone) = (pv = PNone)"
  "repr h v pv \<Longrightarrow> (v = VStr s) = (pv = PStr s)"
  by (cases pv; auto split: hval.splits option.splits hobj.splits)+

lemma lookup_dumped:
  "lookup (dumped md) k VNone = (case map_of md k of None \<Rightarrow> VNone | Some s \<Rightarrow> VStr s)"
  by (induction md) (auto simp: lookup_def dumped_def)

lemma repr_conds_hold:
  "h_dict h cd = Inr (dumped md) \<Longrightarrow> repr_items h cs conds \<Longrightarrow>
   h_conds_hold h cd cs = conds_hold md conds"
proof (induction conds arbitrary: cs)
  case Nil
  then show ?case by (simp add: h_conds_hold_def conds_hold_def)
next
  case (Cons kx kxs)
  obtain k pv where kx: "kx = (k, pv)" by (cases kx)
  with Cons.prems(2) obtain v cs' where cs: "cs = (k, v) # cs'"
    and v: "repr h v pv" and rest: "repr_items h cs' kxs"
    by (auto split: list.splits)
  from Cons.IH [OF Cons.prems(1) rest]
  have IH: "h_conds_hold h cd cs' = conds_hold md kxs" .
  have "(case lookup (dumped md) k VNone of
           VNone \<Rightarrow> v = VNone | VStr s \<Rightarrow> v = VStr s | _ \<Rightarrow> False)
        = get_eq (map_of md k) pv"
    using repr_scalar [OF v]
    by (cases "map_of md k") (simp_all add: lookup_dumped)
  with IH cs kx Cons.prems(1) show ?case
    by (simp add: h_conds_hold_def conds_hold_def)
qed

lemma h_dict_extend: "h_dict h v = Inr d \<Longrightarrow> h_dict (h @ new) v = Inr d"
  by (cases v)
     (auto split: option.splits hobj.splits dest: deref_append_Some [where new = new])

lemma h_decide_loop_refines:
  "repr_list h rs rules \<Longrightarrow> h_dict h cd = Inr (dumped md) \<Longrightarrow>
   fst (h_decide_loop h cd n rs) = decide_loop md n rules"
proof (induction rules arbitrary: h rs n)
  case Nil
  then show ?case by simp
next
  case (Cons prule prules)
  then obtain rule rest where rs: "rs = rule # rest" and rule: "repr h rule prule"
    and rest: "repr_list h rest prules"
    by (auto split: list.splits)
  show ?case
  proof (cases "\<exists>d. prule = PDict d")
    case False
    with repr_not_dict [OF rule] have "h_dict h rule = Inl AttributeError" by simp
    moreover from False have "rule_matches md prule = Inl AttributeError"
      by (cases prule) (simp_all add: rule_matches_def rule_conds_def)
    ultimately show ?thesis by (simp add: rs)
  next
    case True
    then obtain d where d: "prule = PDict d" by blast
    from repr_dict rule d obtain r where r: "h_dict h rule = Inr r" and rd: "repr_items h r d"
      by blast
    define h1 where "h1 = h @ [HDict []]"
    define c where "c = lookup r ''conditions'' (VRef (length h))"
    define pc where "pc = (case map_of d ''conditions'' of None \<Rightarrow> PDict [] | Some x \<Rightarrow> x)"
    define h2 where "h2 = (if h_truthy h1 c then h1 else h1 @ [HDict []])"
    define conds where "conds = (if h_truthy h1 c then c else VRef (length h1))"
    have ext: "\<exists>new. h2 = h @ new" by (simp add: h2_def h1_def)
    have "repr h1 (VRef (length h)) (PDict [])" by (simp add: h1_def deref_alloc)
    moreover from rd have "repr_items h1 r d" unfolding h1_def by (rule repr_extend)
    ultimately have c: "repr h1 c pc" unfolding c_def pc_def by (rule repr_items_lookup [rotated])
    then have t: "h_truthy h1 c = truthy pc" by (rule repr_truthy)
    have conds: "repr h2 conds (py_or pc (PDict []))"
      using c t by (simp add: conds_def h2_def py_or_def deref_alloc)
    from ext obtain new where new: "h2 = h @ new" by blast
    from Cons.prems(2) have cd2: "h_dict h2 cd = Inr (dumped md)"
      unfolding new by (rule h_dict_extend)
    from r have r2: "h_dict h2 rule = Inr r" unfolding new by (rule h_dict_extend)
    from rd have rd2: "repr_items h2 r d" unfolding new by (rule repr_extend)
    from rest have rest2: "repr_list h2 rest prules" unfolding new by (rule repr_extend)
    have unfold: "h_decide_loop h cd n (rule # rest) =
        (case h_dict h2 conds of
           Inl e \<Rightarrow> (Inl e, h2)
         | Inr cs \<Rightarrow>
             if h_conds_hold h2 cd cs
             then (h_new_StyleDecision (lookup r ''style'' (VStr ''hybrid'')) (int n), h2)
             else h_decide_loop h2 cd (Suc n) rest)"
    proof (cases "h_truthy h1 c")
      case True
      then have eq: "h2 = h1" "conds = c" by (simp_all add: h2_def conds_def)
      from r r2 True show ?thesis
        unfolding eq
        by (simp add: alloc_def h1_def [symmetric] c_def [symmetric] split: sum.splits)
    next
      case False
      then have eq: "h2 = h1 @ [HDict []]" "conds = VRef (length h1)"
        by (simp_all add: h2_def conds_def)
      from r r2 False show ?thesis
        unfolding eq
        by (simp add: alloc_def h1_def [symmetric] c_def [symmetric] split: sum.splits)
    qed
    have punfold: "rule_conds prule = py_items (py_or pc (PDict []))"
      by (simp add: d rule_conds_def pc_def)
    show ?thesis
    proof (cases "\<exists>cd'. py_or pc (PDict []) = PDict cd'")
      case False
      with repr_not_dict [OF conds] have "h_dict h2 conds = Inl AttributeError" by simp
      moreover from False have "py_items (py_or pc (PDict [])) = Inl AttributeError"
        by (cases "py_or pc (PDict [])") simp_all
      ultimately show ?thesis
        by (simp add: rs unfold rule_matches_def punfold del: h_decide_loop.simps)
    next
      case True
      then obtain pcs where pcs: "py_or pc (PDict []) = PDict pcs" by blast
      from repr_dict conds pcs obtain cs where cs: "h_dict h2 conds = Inr cs"
        and rcs: "repr_items h2 cs pcs" by metis
      have hold: "h_conds_hold h2 cd cs = conds_hold md pcs"
        using cd2 rcs by (rule repr_conds_hold)
      have m: "rule_matches md prule = Inr (conds_hold md pcs)"
        by (simp add: rule_matches_def punfold pcs)
      show ?thesis
      proof (cases "conds_hold md pcs")
        case True
        have "repr h2 (lookup r ''style'' (VStr ''hybrid''))
            (case map_of d ''style'' of None \<Rightarrow> PStr ''hybrid'' | Some x \<Rightarrow> x)"
          using rd2 by (rule repr_items_lookup) simp
        then have "h_new_StyleDecision (lookup r ''style'' (VStr ''hybrid'')) (int n)
            = rule_decision prule n"
          by (simp add: rule_decision_def d repr_new_StyleDecision)
        with True hold cs m show ?thesis by (simp add: rs unfold del: h_decide_loop.simps)
      next
        case False
        with hold cs m Cons.IH [OF rest2 cd2, of "Suc n"] show ?thesis
          by (simp add: rs unfold del: h_decide_loop.simps)
      qed
    qed
  qed
qed

lemma h_model_dump_context:
  "deref h a = Some (HContext c) \<Longrightarrow> h_model_dump h (VRef a) = Inr (dumped (model_dump c))"
  by simp

lemma h_decide_style_refines:
  assumes "repr h config cfg" and "truthy cfg" and "deref h a = Some (HContext c)"
  shows "fst (h_decide_style h s (VRef a) config) = fst (decide_style st c cfg)"
proof -
  from assms(1,2) have t: "h_truthy h config" by (simp add: repr_truthy)
  show ?thesis
  proof (cases "\<exists>d. cfg = PDict d")
    case False
    with repr_not_dict [OF assms(1)] have "h_dict h config = Inl AttributeError" by simp
    moreover from False have "py_get cfg ''strategies'' (PList []) = Inl AttributeError"
      by (cases cfg) simp_all
    ultimately show ?thesis using t assms(2)
      by (simp add: h_decide_style_def decide_style_def)
  next
    case True
    then obtain d where d: "cfg = PDict d" by blast
    from repr_dict assms(1) d obtain kvs where kvs: "h_dict h config = Inr kvs"
      and rk: "repr_items h kvs d" by blast
    define h2 where "h2 = h @ [HList []]"
    define h3 where "h3 = h2 @ [HDict (dumped (model_dump c))]"
    define rules where "rules = lookup kvs ''strategies'' (VRef (length h))"
    define prules where
      "prules = (case map_of d ''strategies'' of None \<Rightarrow> PList [] | Some x \<Rightarrow> x)"
    have h3: "h3 = h @ [HList [], HDict (dumped (model_dump c))]" by (simp add: h3_def h2_def)
    have "deref h2 a = Some (HContext c)"
      unfolding h2_def using assms(3) by (rule deref_append_Some)
    then have md: "h_model_dump h2 (VRef a) = Inr (dumped (model_dump c))"
      by (rule h_model_dump_context)
    have cd: "h_dict h3 (VRef (length h2)) = Inr (dumped (model_dump c))"
      by (simp add: h3_def deref_alloc)
    have "repr h2 (VRef (length h)) (PList [])" by (simp add: h2_def deref_alloc)
    then have "repr h3 (VRef (length h)) (PList [])" unfolding h3_def by (rule repr_extend)
    moreover from rk have "repr_items h3 kvs d" unfolding h3 by (rule repr_extend)
    ultimately have rr: "repr h3 rules prules"
      unfolding rules_def prules_def by (rule repr_items_lookup [rotated])
    have unfold: "h_decide_style h s (VRef a) config =
        (case h_iter h3 rules of
           Inl e \<Rightarrow> (Inl e, h3, s)
         | Inr rs \<Rightarrow>
             (case h_decide_loop h3 (VRef (length h2)) 0 rs of (r, h4) \<Rightarrow> (r, h4, s)))"
      using t kvs md
      by (simp add: h_decide_style_def alloc_def h2_def [symmetric] h3_def [symmetric]
          rules_def [symmetric])
    have punfold: "fst (decide_style st c cfg) =
        (case py_iter prules of
           Inl e \<Rightarrow> Inl e
         | Inr rs \<Rightarrow> decide_loop (model_dump c) 0 rs)"
      using assms(2) by (simp add: decide_style_def d prules_def split: sum.splits)
    show ?thesis
    proof (cases "py_iter prules")
      case (Inl e)
      with repr_iter [OF rr] show ?thesis by (simp add: unfold punfold)
    next
      case (Inr prs)
      with repr_iter [OF rr] obtain rs where rs: "h_iter h3 rules = Inr rs"
        and rrs: "repr_list h3 rs prs" by auto
      obtain r h4 where l: "h_decide_loop h3 (VRef (length h2)) 0 rs = (r, h4)"
        by (cases "h_decide_loop h3 (VRef (length h2)) 0 rs")
      from h_decide_loop_refines [OF rrs cd, of 0] l Inr rs show ?thesis
        by (simp add: unfold punfold)
    qed
  qed
qed

lemma h_decide_style_supplied:
  "h_truthy h config \<Longrightarrow>
   snd (snd (h_decide_style h s ctx config)) = s
   \<and> fst (h_decide_style h s2 ctx config) = fst (h_decide_style h s ctx config)"
  by (simp add: h_decide_style_def split: sum.splits prod.splits)

section \<open>The claims\<close>

subsection \<open>First-match priority\<close>

text \<open>
  Claim C1, amended. When the rules at indices \<open>i < j\<close> both match the context and no
  rule before \<open>i\<close> matches, \<^verbatim>\<open>decide_style\<close> returns index \<open>i\<close> with the style label
  that rule \<open>i\<close> gives (its \<^verbatim>\<open>style\<close> entry, or the default when it has none); the
  rule at \<open>j\<close> is never looked at. Without the condition on the rules before \<open>i\<close> the
  statement fails: of three rules that all match, the one at index 0 is returned, not the
  one at index 1.
\<close>

theorem first_match_priority:
  assumes "map_of d ''strategies'' = Some (PList rules)"
    and "i < j" and "j < length rules"
    and "rule_matches (model_dump c) (rules ! i) = Inr True"
    and "rule_matches (model_dump c) (rules ! j) = Inr True"
    and "\<forall>k<i. rule_matches (model_dump c) (rules ! k) = Inr False"
    and "py_get (rules ! i) ''style'' (PStr ''hybrid'') = Inr (PStr st)"
  shows "decide_style s c (PDict d) = (Inr \<lparr>style = st, matched_rule_index = int i\<rparr>, s)"
proof -
  from assms(2,3) have "i < length rules" by simp
  from decide_loop_first_match [OF this assms(6) assms(4), of 0]
  have "decide_loop (model_dump c) 0 rules = rule_decision (rules ! i) i" by simp
  also from assms(7) have "\<dots> = Inr \<lparr>style = st, matched_rule_index = int i\<rparr>"
    by (simp add: rule_decision_def)
  finally show ?thesis by (simp add: decide_style_supplied [OF assms(1)])
qed

theorem first_match_priority_witness:
  "decide_style unloaded \<lparr>knowledge = Some novice, emotion = None, clarity = None, urgency = None, stakes = None\<rparr>
     (PDict [(''strategies'', PList (null_knowledge_rule # three_wildcards))])
   = (Inr \<lparr>style = ''first'', matched_rule_index = 1\<rparr>, unloaded)"
  using first_match_priority [of "[(''strategies'', PList (null_knowledge_rule # three_wildcards))]"
      "null_knowledge_rule # three_wildcards" 1 2
      "\<lparr>knowledge = Some novice, emotion = None, clarity = None, urgency = None, stakes = None\<rparr>"
      "''first''" unloaded]
  by (simp add: three_wildcards_def null_knowledge_rule_def rule_matches_def rule_conds_def
      py_or_def conds_hold_def model_dump_def)

theorem first_match_priority_counterexample:
  "(1::nat) < 2 \<and> 2 < length three_wildcards
   \<and> rule_matches (model_dump empty_context) (three_wildcards ! 1) = Inr True
   \<and> rule_matches (model_dump empty_context) (three_wildcards ! 2) = Inr True
   \<and> py_get (three_wildcards ! 1) ''style'' (PStr ''hybrid'') = Inr (PStr ''second'')
   \<and> fst (decide_style unloaded empty_context (PDict [(''strategies'', PList three_wildcards)]))
       = Inr \<lparr>style = ''first'', matched_rule_index = 0\<rparr>
   \<and> fst (decide_style unloaded empty_context (PDict [(''strategies'', PList three_wildcards)]))
       \<noteq> Inr \<lparr>style = ''second'', matched_rule_index = 1\<rparr>"
  by (simp add: three_wildcards_def rule_matches_def rule_conds_def py_or_def conds_hold_def
      decide_style_def rule_decision_def)

subsection \<open>Match semantics\<close>

text \<open>
  Claim C2, amended. For a rule whose required values are all non-null, the rule matches
  the context if and only if, for every (attribute, required value) pair of its constraint
  mapping, the context's value for that attribute is set and equals the required value.
  A null required value is compared with \<^verbatim>\<open>==\<close> like any other, so it holds exactly
  when the attribute is not set: the statement without the restriction fails at the empty
  context.
\<close>

theorem match_semantics:
  assumes "rule_conds rule = Inr conds" and "PNone \<notin> snd ` set conds"
  shows "rule_matches (model_dump c) rule = Inr (spec_match c conds)"
proof -
  have "get_eq (ctx_value c attr) required =
        (case ctx_value c attr of None \<Rightarrow> False | Some v \<Rightarrow> required = PStr v)"
    if "required \<noteq> PNone" for attr required
    using that by (cases "ctx_value c attr") simp_all
  moreover have "required \<noteq> PNone" if "(attr, required) \<in> set conds" for attr required
    using that assms(2) by force
  ultimately have "conds_hold (model_dump c) conds = spec_match c conds"
    unfolding conds_hold_def spec_match_def list_all_iff model_dump_get by fastforce
  with assms(1) show ?thesis by (simp add: rule_matches_def)
qed

theorem match_semantics_witness:
  "rule_matches (model_dump \<lparr>knowledge = Some novice, emotion = None, clarity = None,
      urgency = None, stakes = None\<rparr>) novice_rule
   = Inr (spec_match \<lparr>knowledge = Some novice, emotion = None, clarity = None,
      urgency = None, stakes = None\<rparr> [(''knowledge'', PStr ''novice'')])
   \<and> spec_match \<lparr>knowledge = Some novice, emotion = None, clarity = None,
      urgency = None, stakes = None\<rparr> [(''knowledge'', PStr ''novice'')]
   \<and> \<not> spec_match empty_context [(''knowledge'', PStr ''novice'')]"
proof -
  have 1: "rule_conds novice_rule = Inr [(''knowledge'', PStr ''novice'')]"
    by (simp add: novice_rule_def rule_conds_def py_or_def)
  have 2: "PNone \<notin> snd ` set [(''knowledge'', PStr ''novice'')]" by simp
  from match_semantics [OF 1 2] show ?thesis
    by (simp add: spec_match_def ctx_value_def empty_context_def)
qed

theorem match_semantics_counterexample:
  "rule_conds null_knowledge_rule = Inr [(''knowledge'', PNone)]
   \<and> rule_matches (model_dump empty_context) null_knowledge_rule = Inr True
   \<and> ctx_value empty_context ''knowledge'' = None
   \<and> \<not> spec_match empty_context [(''knowledge'', PNone)]"
  by (simp add: null_knowledge_rule_def rule_conds_def py_or_def rule_matches_def conds_hold_def
      model_dump_def empty_context_def spec_match_def ctx_value_def)

subsection \<open>No-match fallback\<close>

text \<open>
  Claim C3. If no rule of the list matches the context (the empty list included),
  \<^verbatim>\<open>decide_style\<close> returns the style \<^verbatim>\<open>"hybrid"\<close> with index \<open>-1\<close>.
\<close>

theorem no_match_fallback:
  assumes "map_of d ''strategies'' = Some (PList rules)"
    and "\<forall>r \<in> set rules. rule_matches (model_dump c) r = Inr False"
  shows "decide_style s c (PDict d) = (Inr \<lparr>style = ''hybrid'', matched_rule_index = - 1\<rparr>, s)"
  by (simp add: decide_style_supplied [OF assms(1)] decide_loop_no_match [OF assms(2)])

theorem no_match_fallback_witness:
  "decide_style unloaded empty_context (PDict [(''strategies'', PList [novice_rule])])
     = (Inr \<lparr>style = ''hybrid'', matched_rule_index = - 1\<rparr>, unloaded)
   \<and> decide_style unloaded empty_context (PDict [(''strategies'', PList [])])
     = (Inr \<lparr>style = ''hybrid'', matched_rule_index = - 1\<rparr>, unloaded)"
proof
  show "decide_style unloaded empty_context (PDict [(''strategies'', PList [novice_rule])])
     = (Inr \<lparr>style = ''hybrid'', matched_rule_index = - 1\<rparr>, unloaded)"
    by (rule no_match_fallback [where rules = "[novice_rule]"])
       (simp_all add: novice_rule_def rule_matches_def rule_conds_def py_or_def conds_hold_def
          model_dump_def empty_context_def)
  show "decide_style unloaded empty_context (PDict [(''strategies'', PList [])])
     = (Inr \<lparr>style = ''hybrid'', matched_rule_index = - 1\<rparr>, unloaded)"
    by (rule no_match_fallback [where rules = "[]"]) simp_all
qed

subsection \<open>Wildcard correctness\<close>

text \<open>
  Claim C4. A rule whose constraint mapping is empty matches every context, the context
  with no attribute set included. If such a rule is in the list, every Decision that
  \<^verbatim>\<open>decide_style\<close> returns has a non-negative index, never the fallback index \<open>-1\<close>; and
  on a list of rule records it does return one.
\<close>

theorem wildcard_correctness:
  assumes "rule_conds r = Inr []"
  shows "rule_matches (model_dump c) r = Inr True
    \<and> (r \<in> set rules \<longrightarrow> map_of d ''strategies'' = Some (PList rules) \<longrightarrow>
         (\<forall>dec. fst (decide_style s c (PDict d)) = Inr dec \<longrightarrow> 0 \<le> matched_rule_index dec)
         \<and> (list_all wf_rule rules \<longrightarrow>
              (\<exists>dec. fst (decide_style s c (PDict d)) = Inr dec \<and> 0 \<le> matched_rule_index dec)))"
proof -
  from assms have m: "rule_matches (model_dump c) r = Inr True"
    by (simp add: rule_matches_def conds_hold_def)
  have "0 \<le> matched_rule_index dec"
    if "r \<in> set rules" and "map_of d ''strategies'' = Some (PList rules)"
      and "fst (decide_style s c (PDict d)) = Inr dec" for dec
    using decide_loop_match_not_fallback [OF that(1) m, of 0 dec] that(3)
    by (simp add: decide_style_supplied [OF that(2)])
  moreover have "\<exists>dec. fst (decide_style s c (PDict d)) = Inr dec"
    if "map_of d ''strategies'' = Some (PList rules)" and "list_all wf_rule rules"
    using wf_decide_loop [OF that(2), of "model_dump c" 0]
    by (simp add: decide_style_supplied [OF that(1)])
  ultimately show ?thesis using m by blast
qed

theorem wildcard_correctness_witness:
  "rule_matches (model_dump empty_context) (PDict [(''style'', PStr ''hybrid'')]) = Inr True
   \<and> (\<exists>dec. fst (decide_style unloaded empty_context
          (PDict [(''strategies'', PList [novice_rule, PDict [(''style'', PStr ''hybrid'')]])]))
        = Inr dec \<and> 0 \<le> matched_rule_index dec)"
proof -
  have 1: "rule_conds (PDict [(''style'', PStr ''hybrid'')]) = Inr []"
    by (simp add: rule_conds_def py_or_def)
  from wildcard_correctness [OF 1, of empty_context
      "[novice_rule, PDict [(''style'', PStr ''hybrid'')]]"
      "[(''strategies'', PList [novice_rule, PDict [(''style'', PStr ''hybrid'')]])]" unloaded]
  show ?thesis by (simp add: novice_rule_def)
qed

subsection \<open>Totality\<close>

text \<open>
  Claim C5. For every context and every list of rule records, empty or not,
  \<^verbatim>\<open>decide_style\<close> returns exactly one Decision and raises nothing.
\<close>

theorem totality:
  assumes "map_of d ''strategies'' = Some (PList rules)" and "list_all wf_rule rules"
  shows "\<exists>!dec. decide_style s c (PDict d) = (Inr dec, s)"
  using wf_decide_loop [OF assms(2), of "model_dump c" 0]
  by (auto simp: decide_style_supplied [OF assms(1)])

theorem totality_witness:
  "\<exists>!dec. decide_style unloaded empty_context
      (PDict [(''strategies'', PList (novice_rule # three_wildcards))]) = (Inr dec, unloaded)"
  by (rule totality [where rules = "novice_rule # three_wildcards"])
     (simp_all add: novice_rule_def three_wildcards_def)

subsection \<open>Determinism\<close>

text \<open>
  Claim C6. Two evaluations of \<^verbatim>\<open>decide_style\<close> on the same context and rule list give
  the same result whatever the state of the configuration file and of the cache at each of
  them; and evaluating again in the state the first evaluation left behind gives the same
  result, also when no configuration was passed and the first evaluation filled the cache.
\<close>

theorem determinism:
  "(map_of d ''strategies'' = Some (PList rules) \<longrightarrow>
      fst (decide_style s1 c (PDict d)) = fst (decide_style s2 c (PDict d)))
   \<and> fst (decide_style (snd (decide_style s c config)) c config) = fst (decide_style s c config)"
  by (simp add: decide_style_supplied decide_style_again)

theorem determinism_witness:
  "fst (decide_style unloaded empty_context (PDict [(''strategies'', PList three_wildcards)]))
     = fst (decide_style \<lparr>source = Parsed styleless_config, cache = Some PNone\<rparr> empty_context
         (PDict [(''strategies'', PList three_wildcards)]))
   \<and> fst (decide_style (snd (decide_style \<lparr>source = Parsed styleless_config, cache = None\<rparr>
         empty_context PNone)) empty_context PNone)
     = Inr \<lparr>style = ''hybrid'', matched_rule_index = 0\<rparr>"
proof -
  have 1: "map_of [(''strategies'', PList three_wildcards)] ''strategies''
    = Some (PList three_wildcards)" by simp
  have 2: "fst (decide_style \<lparr>source = Parsed styleless_config, cache = None\<rparr> empty_context PNone)
    = Inr \<lparr>style = ''hybrid'', matched_rule_index = 0\<rparr>"
    by (simp add: decide_style_def get_config_def styleless_config_def rule_matches_def
        rule_conds_def py_or_def conds_hold_def rule_decision_def)
  from determinism [of "[(''strategies'', PList three_wildcards)]" three_wildcards unloaded
      empty_context "\<lparr>source = Parsed styleless_config, cache = Some PNone\<rparr>"
      "\<lparr>source = Parsed styleless_config, cache = None\<rparr>" PNone] 1 2
  show ?thesis by simp
qed

subsection \<open>No mutation, no hidden state\<close>

text \<open>
  Claim C7. Whatever the arguments and the state of file and cache, every object that was
  in the store before a call of \<^verbatim>\<open>decide_style\<close> is at its address, unchanged, after it:
  the context record, the configuration, the rule list and every rule record and constraint
  mapping in it. The call only creates objects. A configuration that represented a value
  before the call represents the same value after it. When the rule list is supplied (the
  configuration is not false), the state of file and cache is left as it was, the result
  is the same in any such state, and it is the result of the function of context and
  configuration that the other claims are about.
\<close>

theorem no_mutation:
  "(\<forall>a < length h. deref (fst (snd (h_decide_style h s ctx config))) a = deref h a)
   \<and> length h \<le> length (fst (snd (h_decide_style h s ctx config)))
   \<and> (repr h config cfg \<longrightarrow> repr (fst (snd (h_decide_style h s ctx config))) config cfg)
   \<and> (h_truthy h config \<longrightarrow>
        snd (snd (h_decide_style h s ctx config)) = s
        \<and> fst (h_decide_style h s2 ctx config) = fst (h_decide_style h s ctx config))
   \<and> (repr h config cfg \<longrightarrow> truthy cfg \<longrightarrow> ctx = VRef a \<longrightarrow> deref h a = Some (HContext c) \<longrightarrow>
        fst (h_decide_style h s ctx config) = fst (decide_style st c cfg))"
proof -
  from h_decide_style_extends [of h s ctx config] obtain new where
    new: "fst (snd (h_decide_style h s ctx config)) = h @ new" by blast
  have "\<forall>a < length h. deref (h @ new) a = deref h a" by (simp add: deref_append)
  moreover have "repr (h @ new) config cfg" if "repr h config cfg"
    using that by (rule repr_extend)
  ultimately show ?thesis
    using h_decide_style_supplied [of h config s ctx s2]
      h_decide_style_refines [of h config cfg a c s st]
    by (auto simp: new)
qed

theorem no_mutation_witness:
  "deref (fst (snd (h_decide_style novice_heap h_unloaded (VRef 0) (VRef 4)))) 0
     = Some (HContext novice_context)
   \<and> deref (fst (snd (h_decide_style novice_heap h_unloaded (VRef 0) (VRef 4)))) 1
     = deref novice_heap 1
   \<and> deref (fst (snd (h_decide_style novice_heap h_unloaded (VRef 0) (VRef 4)))) 2
     = deref novice_heap 2
   \<and> deref (fst (snd (h_decide_style novice_heap h_unloaded (VRef 0) (VRef 4)))) 3
     = deref novice_heap 3
   \<and> deref (fst (snd (h_decide_style novice_heap h_unloaded (VRef 0) (VRef 4)))) 4
     = deref novice_heap 4
   \<and> fst (snd (h_decide_style novice_heap h_unloaded (VRef 0) (VRef 4)))
     = novice_heap @ [HList [], HDict [(''knowledge'', VStr ''novice'')], HDict []]
   \<and> repr (fst (snd (h_decide_style novice_heap h_unloaded (VRef 0) (VRef 4)))) (VRef 4)
       novice_config
   \<and> snd (snd (h_decide_style novice_heap h_unloaded (VRef 0) (VRef 4))) = h_unloaded
   \<and> fst (h_decide_style novice_heap h_unloaded (VRef 0) (VRef 4))
     = fst (decide_style unloaded novice_context novice_config)
   \<and> fst (h_decide_style novice_heap h_unloaded (VRef 0) (VRef 4))
     = Inr \<lparr>style = ''explanatory'', matched_rule_index = 0\<rparr>"
proof -
  have 1: "repr novice_heap (VRef 4) novice_config"
    by (simp add: novice_heap_def novice_config_def deref_def)
  have 2: "truthy novice_config" by (simp add: novice_config_def)
  have 3: "deref novice_heap 0 = Some (HContext novice_context)"
    by (simp add: novice_heap_def deref_def)
  have 4: "h_truthy novice_heap (VRef 4)" by (simp add: novice_heap_def deref_def)
  have 5: "h_decide_style novice_heap h_unloaded (VRef 0) (VRef 4)
      = (Inr \<lparr>style = ''explanatory'', matched_rule_index = 0\<rparr>,
         novice_heap @ [HList [], HDict [(''knowledge'', VStr ''novice'')], HDict []],
         h_unloaded)"
    by (simp add: h_decide_style_def novice_heap_def deref_def alloc_def lookup_def
        model_dump_def novice_context_def h_conds_hold_def dumped_def)
  from no_mutation [of novice_heap h_unloaded "VRef 0" "VRef 4" novice_config h_unloaded 0
      novice_context unloaded] 1 2 3 4 5
  show ?thesis by (simp add: deref_def novice_heap_def nth_append)
qed

subsection \<open>Loading the configuration\<close>

text \<open>
  Claim C8, amended. A configuration source that is missing, unreadable or not parseable
  is rejected with an error when it is loaded, and \<^verbatim>\<open>decide_style\<close> called without a
  configuration then returns that error and no Decision. A source that parses is returned
  as it is: the loader does not look at the rule entries, so an entry without a style
  label is not rejected at load time and is matched like any other rule.
\<close>

theorem load_time_rejection:
  "load_config Missing = Inl FileNotFoundError
   \<and> load_config Unreadable = Inl OSError
   \<and> load_config Malformed = Inl YAMLError
   \<and> load_config (Parsed v) = Inr v
   \<and> (cache s = None \<longrightarrow> \<not> truthy config \<longrightarrow> load_config (source s) = Inl e \<longrightarrow>
        decide_style s c config = (Inl e, s))"
  by (simp add: decide_style_def get_config_def)

theorem load_time_rejection_witness:
  "decide_style unloaded empty_context PNone = (Inl FileNotFoundError, unloaded)
   \<and> load_config (Parsed styleless_config) = Inr styleless_config"
  using load_time_rejection [of styleless_config unloaded PNone FileNotFoundError empty_context]
  by (simp add: unloaded_def)

theorem load_time_rejection_counterexample:
  "load_config (Parsed styleless_config) = Inr styleless_config
   \<and> py_get (PDict [(''conditions'', PDict [])]) ''style'' PNone = Inr PNone
   \<and> decide_style \<lparr>source = Parsed styleless_config, cache = None\<rparr> empty_context PNone
     = (Inr \<lparr>style = ''hybrid'', matched_rule_index = 0\<rparr>,
        \<lparr>source = Parsed styleless_config, cache = Some styleless_config\<rparr>)"
  by (simp add: decide_style_def get_config_def styleless_config_def rule_matches_def
      rule_conds_def py_or_def conds_hold_def rule_decision_def)

subsection \<open>Null conditions\<close>

text \<open>
  Claim C9. A rule whose \<^verbatim>\<open>conditions\<close> entry is null is treated exactly like the same rule
  with an empty constraint mapping: it has the same constraints, it matches every context,
  the loop gives the same result with either in its place, and \<^verbatim>\<open>decide_style\<close> selects
  it when no rule before it matches.
\<close>

theorem null_conditions:
  assumes "map_of r ''conditions'' = Some PNone"
    and "map_of r' ''conditions'' = Some (PDict [])"
    and "map_of r' ''style'' = map_of r ''style''"
  shows "rule_conds (PDict r) = rule_conds (PDict r')
    \<and> rule_matches (model_dump c) (PDict r) = Inr True
    \<and> decide_loop (model_dump c) n (pre @ PDict r # post)
        = decide_loop (model_dump c) n (pre @ PDict r' # post)
    \<and> ((\<forall>p \<in> set pre. rule_matches (model_dump c) p = Inr False) \<longrightarrow>
         map_of d ''strategies'' = Some (PList (pre @ PDict r # post)) \<longrightarrow>
         fst (decide_style s c (PDict d)) = rule_decision (PDict r) (length pre))"
proof -
  from assms(1,2) have conds: "rule_conds (PDict r) = Inr []" "rule_conds (PDict r') = Inr []"
    by (simp_all add: rule_conds_def py_or_def)
  then have m: "rule_matches (model_dump c) (PDict r) = Inr True"
    "rule_matches (model_dump c) (PDict r') = Inr True"
    by (simp_all add: rule_matches_def conds_hold_def)
  from assms(3) have dec: "rule_decision (PDict r) = rule_decision (PDict r')"
    by (simp add: rule_decision_def fun_eq_iff)
  have "decide_loop (model_dump c) 0 (pre @ PDict r # post) = rule_decision (PDict r) (length pre)"
    if "\<forall>p \<in> set pre. rule_matches (model_dump c) p = Inr False"
    using decide_loop_first_match [of "length pre" "pre @ PDict r # post" "model_dump c" 0] that m(1)
    by (simp add: nth_append)
  with conds m decide_loop_replace [of "model_dump c" "PDict r" "PDict r'" n pre post] dec
  show ?thesis by (simp add: decide_style_supplied)
qed

theorem null_conditions_witness:
  "rule_matches (model_dump empty_context) (PDict [(''conditions'', PNone), (''style'', PStr ''hybrid'')])
     = Inr True
   \<and> fst (decide_style unloaded empty_context (PDict [(''strategies'',
        PList ([novice_rule] @ PDict [(''conditions'', PNone), (''style'', PStr ''hybrid'')] # three_wildcards))]))
     = Inr \<lparr>style = ''hybrid'', matched_rule_index = 1\<rparr>"
proof -
  have 1: "map_of [(''conditions'', PNone), (''style'', PStr ''hybrid'')] ''conditions'' = Some PNone"
    by simp
  have 2: "map_of [(''conditions'', PDict []), (''style'', PStr ''hybrid'')] ''conditions''
    = Some (PDict [])" by simp
  have 3: "map_of [(''conditions'', PDict []), (''style'', PStr ''hybrid'')] ''style''
    = map_of [(''conditions'', PNone), (''style'', PStr ''hybrid'')] ''style''" by simp
  have 4: "\<forall>p \<in> set [novice_rule]. rule_matches (model_dump empty_context) p = Inr False"
    by (simp add: novice_rule_def rule_matches_def rule_conds_def py_or_def conds_hold_def
        model_dump_def empty_context_def)
  from null_conditions [OF 1 2 3, of empty_context 0 "[novice_rule]" three_wildcards
      "[(''strategies'', PList ([novice_rule] @ PDict [(''conditions'', PNone),
          (''style'', PStr ''hybrid'')] # three_wildcards))]" unloaded] 4
  show ?thesis by (simp add: rule_decision_def)
qed

subsection \<open>Missing style\<close>

text \<open>
  Claim C10. If the first matching rule has no \<^verbatim>\<open>style\<close> entry, \<^verbatim>\<open>decide_style\<close> does not
  fail: it returns \<^verbatim>\<open>"hybrid"\<close> with that rule's index, which is non-negative, unlike the
  fallback, which pairs \<^verbatim>\<open>"hybrid"\<close> with \<open>-1\<close>.
\<close>

theorem missing_style_default:
  assumes "map_of d ''strategies'' = Some (PList rules)"
    and "i < length rules"
    and "\<forall>k<i. rule_matches (model_dump c) (rules ! k) = Inr False"
    and "rule_matches (model_dump c) (rules ! i) = Inr True"
    and "rules ! i = PDict r" and "map_of r ''style'' = None"
  shows "decide_style s c (PDict d) = (Inr \<lparr>style = ''hybrid'', matched_rule_index = int i\<rparr>, s)
    \<and> 0 \<le> int i
    \<and> fst (decide_style s c (PDict d)) \<noteq> Inr \<lparr>style = ''hybrid'', matched_rule_index = - 1\<rparr>"
  using decide_loop_first_match [OF assms(2,3,4), of 0] assms(5,6)
  by (simp add: decide_style_supplied [OF assms(1)] rule_decision_def)

theorem missing_style_default_witness:
  "decide_style unloaded empty_context
     (PDict [(''strategies'', PList [novice_rule, PDict [(''conditions'', PDict [])]])])
   = (Inr \<lparr>style = ''hybrid'', matched_rule_index = int 1\<rparr>, unloaded)"
proof -
  have 1: "map_of [(''strategies'', PList [novice_rule, PDict [(''conditions'', PDict [])]])]
      ''strategies'' = Some (PList [novice_rule, PDict [(''conditions'', PDict [])]])" by simp
  have 2: "1 < length [novice_rule, PDict [(''conditions'', PDict [])]]" by simp
  have 3: "\<forall>k<1. rule_matches (model_dump empty_context)
      ([novice_rule, PDict [(''conditions'', PDict [])]] ! k) = Inr False"
    by (simp add: novice_rule_def rule_matches_def rule_conds_def py_or_def conds_hold_def
        model_dump_def empty_context_def)
  have 4: "rule_matches (model_dump empty_context)
      ([novice_rule, PDict [(''conditions'', PDict [])]] ! 1) = Inr True"
    by (simp add: rule_matches_def rule_conds_def py_or_def conds_hold_def)
  have 5: "[novice_rule, PDict [(''conditions'', PDict [])]] ! 1 = PDict [(''conditions'', PDict [])]"
    by simp
  have 6: "map_of [(''conditions'', PDict [])] ''style'' = None" by simp
  from missing_style_default [OF 1 2 3 4 5 6, of unloaded] show ?thesis by simp
qed

end
